theory Spec2Isabelle
  imports Main
begin

section \<open>Data model\<close>

text \<open>
  The program is one Python module, \<^verbatim>\<open>app.py\<close>. Python integers are unbounded, so
  every integer of the program is an \<^typ>\<open>int\<close>; Python strings are \<^typ>\<open>string\<close>.
  An exception is a value: a computation that may raise returns \<open>exn + 'a\<close>, with
  \<open>Inl\<close> for the exception.
\<close>

datatype exn =
    Exception string      \<comment> \<open>\<^verbatim>\<open>raise Exception(...)\<close> in \<^verbatim>\<open>getenv\<close>\<close>
  | IndexError            \<comment> \<open>a list index out of range\<close>
  | ValueError            \<comment> \<open>raised by a built-in (\<^verbatim>\<open>int\<close>, \<^verbatim>\<open>sleep\<close>)\<close>
  | OverflowError         \<comment> \<open>raised by \<^verbatim>\<open>sleep\<close> on a delay too large for its clock\<close>
  | OSError string        \<comment> \<open>raised by \<^verbatim>\<open>sleep\<close> when the operating system refuses the wait\<close>
  | LibraryError string   \<comment> \<open>raised inside \<^verbatim>\<open>who_is_on_my_wifi\<close> or \<^verbatim>\<open>paho.mqtt\<close>\<close>

text \<open>
  \<^verbatim>\<open>logging.info(msg)\<close> and \<^verbatim>\<open>logging.info(fmt, n)\<close>: the record keeps the format
  string and its argument apart, as the call does.
\<close>

datatype log_entry = Info string | InfoInt string int

text \<open>What the program does to the outside world, in the order it does it.\<close>

datatype event =
    Log log_entry
  | Scan                    \<comment> \<open>\<^verbatim>\<open>who()\<close>\<close>
  | Connect string int      \<comment> \<open>\<^verbatim>\<open>self.__inner__.connect(broker, port)\<close>\<close>
  | LoopStart               \<comment> \<open>\<^verbatim>\<open>self.__inner__.loop_start()\<close>\<close>
  | Publish string string   \<comment> \<open>\<^verbatim>\<open>self.__inner__.publish(topic, msg)\<close>\<close>
  | LoopStop                \<comment> \<open>\<^verbatim>\<open>self.__inner__.loop_stop()\<close>\<close>
  | Sleep int               \<comment> \<open>\<^verbatim>\<open>sleep(config.delay)\<close>\<close>

text \<open>The fields that \<^verbatim>\<open>MqttClient.__init__\<close> stores (the source spells two of them mqqt).\<close>

record MqttClient =
  mqqtBroker :: string
  mqqtPort :: int
  clientId :: string   \<comment> \<open>\<^verbatim>\<open>self.mqttClient\<close>; renamed, the configuration has a field of that name\<close>

record PyAbsenceConfig =
  triggers :: "string list"
  delay :: int
  retries :: int
  mqttBroker :: string
  mqttPort :: int
  mqttTopic :: string
  mqttClient :: string

text \<open>The two local variables of \<^verbatim>\<open>main\<close> that live across cycles.\<close>

record state =
  absent_count :: int
  notified :: bool

definition initial :: state where
  "initial = \<lparr>absent_count = 0, notified = False\<rparr>"

section \<open>The controller: one cycle of the loop of \<^verbatim>\<open>main\<close>\<close>

text \<open>
  Line 166: \<^verbatim>\<open>absent = sum([1 for s in config.triggers if s in mac_addresses]) == 0\<close>.
\<close>

definition absent :: "PyAbsenceConfig \<Rightarrow> string list \<Rightarrow> bool" where
  "absent config mac_addresses =
     (sum_list (map (\<lambda>s. 1) (filter (\<lambda>s. s \<in> set mac_addresses) (triggers config))) = (0::int))"

text \<open>
  Lines 167 to 174: the counter and the flag after the observation, with what is logged.
\<close>

definition observe :: "PyAbsenceConfig \<Rightarrow> state \<Rightarrow> string list \<Rightarrow> event list \<times> state" where
  "observe config st mac_addresses =
     (if absent config mac_addresses
      then ([Log (Info ''Noone is here :('')], st\<lparr>absent_count := absent_count st + 1\<rparr>)
      else ((if notified st then [Log (Info ''Someone returned!'')] else []),
            st\<lparr>absent_count := 0, notified := False\<rparr>))"

text \<open>Line 175: \<^verbatim>\<open>if absent_count > config.retries and not notified\<close>.\<close>

definition fires :: "PyAbsenceConfig \<Rightarrow> state \<Rightarrow> bool" where
  "fires config st = (absent_count st > retries config \<and> \<not> notified st)"

text \<open>
  Lines 166 to 179 as a function of the observed addresses: the state the cycle leaves,
  and whether it called \<^verbatim>\<open>mq.notify\<close>.
\<close>

definition cycle :: "PyAbsenceConfig \<Rightarrow> state \<Rightarrow> string list \<Rightarrow> state \<times> bool" where
  "cycle config st mac_addresses =
     (let st1 = snd (observe config st mac_addresses)
      in if fires config st1 then (st1\<lparr>notified := True\<rparr>, True) else (st1, False))"

text \<open>
  A run of cycles over a finite sequence of observations: the state after the last one,
  and for each cycle whether it notified.
\<close>

fun final_state :: "PyAbsenceConfig \<Rightarrow> state \<Rightarrow> string list list \<Rightarrow> state" where
  "final_state config st [] = st"
| "final_state config st (obs # rest) = final_state config (fst (cycle config st obs)) rest"

fun notifications :: "PyAbsenceConfig \<Rightarrow> state \<Rightarrow> string list list \<Rightarrow> bool list" where
  "notifications config st [] = []"
| "notifications config st (obs # rest) =
     snd (cycle config st obs) # notifications config (fst (cycle config st obs)) rest"

text \<open>
  The specification's words for the verdict of a cycle: no configured trigger address is
  among the observed ones.
\<close>

definition no_trigger_observed :: "PyAbsenceConfig \<Rightarrow> string list \<Rightarrow> bool" where
  "no_trigger_observed config observed = (set (triggers config) \<inter> set observed = {})"

text \<open>
  The specification's words for the counter: the length of the longest run of cycles
  without a trigger that ends at the last cycle.
\<close>

definition trailing_absent_run :: "PyAbsenceConfig \<Rightarrow> string list list \<Rightarrow> nat" where
  "trailing_absent_run config observations =
     length (takeWhile (no_trigger_observed config) (rev observations))"

section \<open>Configuration from the environment\<close>

text \<open>
  \<^verbatim>\<open>getenv(name, required)\<close>: \<^verbatim>\<open>environ.get(name, "")\<close>, and an exception when the value
  is empty and required. \<^verbatim>\<open>os.environ\<close> is a map from names to values.
\<close>

definition getenv :: "(string \<rightharpoonup> string) \<Rightarrow> string \<Rightarrow> bool \<Rightarrow> exn + string" where
  "getenv environ name required =
     (let val = (case environ name of None \<Rightarrow> [] | Some v \<Rightarrow> v)
      in if val = [] \<and> required
         then Inl (Exception (''Environment variable '' @ [CHR 0x22] @ name @ [CHR 0x22] @
                              '' is not set''))
         else Inr val)"

text \<open>\<^verbatim>\<open>s.split(sep)\<close> for a separator of one character: \<^verbatim>\<open>"a,,b".split(",")\<close> is \<^verbatim>\<open>["a", "", "b"]\<close>.\<close>

fun str_split :: "string \<Rightarrow> char \<Rightarrow> string list" where
  "str_split [] sep = [[]]"
| "str_split (c # cs) sep =
     (if c = sep then [] # str_split cs sep
      else (case str_split cs sep of [] \<Rightarrow> [[c]] | w # ws \<Rightarrow> (c # w) # ws))"

text \<open>
  \<^verbatim>\<open>PyAbsenceConfig.__init__\<close>, lines 66 to 74. The built-in \<^verbatim>\<open>int\<close> is a parameter,
  \<open>py_int\<close>: it raises or returns an integer, of either sign. The seven variables are
  read in the source's order and the first exception ends the construction; nothing
  checks the value of an integer once it is parsed.
\<close>

definition PyAbsenceConfig_init ::
  "(string \<Rightarrow> exn + int) \<Rightarrow> (string \<rightharpoonup> string) \<Rightarrow> exn + PyAbsenceConfig" where
  "PyAbsenceConfig_init py_int environ =
     (case getenv environ ''PYABS_TRIGGERS'' True of Inl e \<Rightarrow> Inl e | Inr trig \<Rightarrow>
     (case getenv environ ''PYABS_DELAY'' True of Inl e \<Rightarrow> Inl e | Inr d \<Rightarrow>
     (case py_int d of Inl e \<Rightarrow> Inl e | Inr delay_v \<Rightarrow>
     (case getenv environ ''PYABS_RETRIES'' True of Inl e \<Rightarrow> Inl e | Inr r \<Rightarrow>
     (case py_int r of Inl e \<Rightarrow> Inl e | Inr retries_v \<Rightarrow>
     (case getenv environ ''MQTT_BROKER'' True of Inl e \<Rightarrow> Inl e | Inr broker \<Rightarrow>
     (case getenv environ ''MQTT_PORT'' True of Inl e \<Rightarrow> Inl e | Inr p \<Rightarrow>
     (case py_int p of Inl e \<Rightarrow> Inl e | Inr port \<Rightarrow>
     (case getenv environ ''MQTT_TOPIC'' True of Inl e \<Rightarrow> Inl e | Inr topic \<Rightarrow>
     (case getenv environ ''MQTT_CLIENT'' True of Inl e \<Rightarrow> Inl e | Inr client \<Rightarrow>
        Inr \<lparr>triggers = str_split trig CHR '','', delay = delay_v, retries = retries_v,
             mqttBroker = broker, mqttPort = port, mqttTopic = topic,
             mqttClient = client\<rparr>))))))))))"

section \<open>The notifier: class \<^verbatim>\<open>MqttClient\<close>\<close>

text \<open>
  The paho client is not part of the program. What it answers during one call of
  \<^verbatim>\<open>notify\<close> is an input of the model: each call either raises or returns.
  \<^verbatim>\<open>connect\<close>, \<^verbatim>\<open>loop_start\<close> and \<^verbatim>\<open>loop_stop\<close> return values that the source ignores;
  \<^verbatim>\<open>publish\<close> returns a result of which the source reads \<^verbatim>\<open>result[0]\<close>, the status, so
  a result is a pair of the status and the message id. \<open>publish_reply k\<close> is the answer to
  the call of \<^verbatim>\<open>publish\<close> number \<open>k\<close> of this \<^verbatim>\<open>notify\<close>, counting from 0.
\<close>

record broker_replies =
  connect_reply :: "exn + unit"
  loop_start_reply :: "exn + unit"
  publish_reply :: "nat \<Rightarrow> exn + int \<times> int"
  loop_stop_reply :: "exn + unit"

definition MqttClient_init :: "string \<Rightarrow> int \<Rightarrow> string \<Rightarrow> MqttClient" where
  "MqttClient_init broker port client =
     \<lparr>mqqtBroker = broker, mqqtPort = port, clientId = client\<rparr>"

text \<open>
  \<^verbatim>\<open>on_connect\<close>, lines 119 to 123: the callback that \<^verbatim>\<open>__connect__\<close> installs. The
  library calls it with the result code of the connection; it logs and does nothing else.
  Whether and when the library calls it is the library's affair, so its log entry is not
  among the events of \<^verbatim>\<open>notify\<close> below.
\<close>

definition on_connect :: "int \<Rightarrow> event list" where
  "on_connect rc =
     (if rc = 0 then [Log (Info ''Connected to MQTT Broker!'')]
      else [Log (InfoInt (''Failed to connect, return code %d'' @ [CHR 0x0A]) rc)])"

text \<open>
  \<^verbatim>\<open>__MqttClient_publish\<close>, lines 125 to 134: the loop with its variable \<open>attempts\<close>. An iteration
  calls \<^verbatim>\<open>publish\<close> once, and \<open>attempts\<close> counts the iterations that went before, so the
  call made when the variable is \<open>attempts\<close> is call number \<open>attempts\<close>. The result is
  the events in order and the exception, if one was raised.
\<close>

function publish_loop ::
  "broker_replies \<Rightarrow> string \<Rightarrow> string \<Rightarrow> nat \<Rightarrow> event list \<times> exn option" where
  "publish_loop broker topic msg attempts =
     (if attempts < 5 then
        (case publish_reply broker attempts of
           Inl e \<Rightarrow> ([Publish topic msg], Some e)
         | Inr result \<Rightarrow>
             (let status = fst result in
              if status = 0
              then ([Publish topic msg,
                     Log (Info (''Sent `'' @ msg @ ''` to topic `'' @ topic @ ''`''))], None)
              else (case publish_loop broker topic msg (attempts + 1) of
                      (evs, r) \<Rightarrow>
                        (Publish topic msg #
                         Log (Info (''Failed to send message to topic '' @ topic)) # evs, r))))
      else ([], None))"
  by pat_completeness auto
termination
  by (relation "measure (\<lambda>(broker, topic, msg, attempts). 5 - attempts)") auto

definition MqttClient_publish :: "broker_replies \<Rightarrow> string \<Rightarrow> string \<Rightarrow> event list \<times> exn option" where
  "MqttClient_publish broker topic msg = publish_loop broker topic msg 0"

text \<open>
  \<^verbatim>\<open>notify\<close>, lines 136 to 147, with \<^verbatim>\<open>__connect__\<close> (lines 114 to 116) in place: connect,
  start the network loop, publish, stop the loop. No call is inside a \<^verbatim>\<open>try\<close>, so the
  first exception ends \<^verbatim>\<open>notify\<close> and is its caller's.
\<close>

definition notify ::
  "MqttClient \<Rightarrow> broker_replies \<Rightarrow> string \<Rightarrow> string \<Rightarrow> event list \<times> exn option" where
  "notify self broker topic msg =
     (let connect = Connect (mqqtBroker self) (mqqtPort self) in
      case connect_reply broker of
        Inl e \<Rightarrow> ([connect], Some e)
      | Inr _ \<Rightarrow>
          (case loop_start_reply broker of
             Inl e \<Rightarrow> ([connect, LoopStart], Some e)
           | Inr _ \<Rightarrow>
               (case MqttClient_publish broker topic msg of
                  (evs, Some e) \<Rightarrow> (connect # LoopStart # evs, Some e)
                | (evs, None) \<Rightarrow>
                    (case loop_stop_reply broker of
                       Inl e \<Rightarrow> (connect # LoopStart # evs @ [LoopStop], Some e)
                     | Inr _ \<Rightarrow> (connect # LoopStart # evs @ [LoopStop], None)))))"

text \<open>How many times a sequence of events calls \<^verbatim>\<open>publish\<close>, and \<^verbatim>\<open>connect\<close>.\<close>

fun publish_attempts :: "event list \<Rightarrow> nat" where
  "publish_attempts [] = 0"
| "publish_attempts (Publish topic msg # evs) = Suc (publish_attempts evs)"
| "publish_attempts (ev # evs) = publish_attempts evs"

fun notify_calls :: "event list \<Rightarrow> nat" where
  "notify_calls [] = 0"
| "notify_calls (Connect broker port # evs) = Suc (notify_calls evs)"
| "notify_calls (ev # evs) = notify_calls evs"

text \<open>An answer of \<^verbatim>\<open>publish\<close> that reports failure (success): a result with a status other than 0 (with status 0).\<close>

definition reports_failure :: "exn + int \<times> int \<Rightarrow> bool" where
  "reports_failure reply = (case reply of Inl e \<Rightarrow> False | Inr result \<Rightarrow> fst result \<noteq> 0)"

definition reports_success :: "exn + int \<times> int \<Rightarrow> bool" where
  "reports_success reply = (case reply of Inl e \<Rightarrow> False | Inr result \<Rightarrow> fst result = 0)"

section \<open>The loop of \<^verbatim>\<open>main\<close>\<close>

text \<open>
  The scanner is not part of the program either: \<^verbatim>\<open>who()\<close> raises or returns a list of
  devices, each a list of fields. Line 165 reads field 3 of every device, which raises
  \<^verbatim>\<open>IndexError\<close> on a device with fewer than four fields.
\<close>

fun mac_addresses_of :: "string list list \<Rightarrow> exn + string list" where
  "mac_addresses_of [] = Inr []"
| "mac_addresses_of (device # devices) =
     (if 3 < length device
      then (case mac_addresses_of devices of
              Inl e \<Rightarrow> Inl e
            | Inr macs \<Rightarrow> Inr (device ! 3 # macs))
      else Inl IndexError)"

text \<open>
  \<^verbatim>\<open>time.sleep(secs)\<close> on an integer: it raises \<^verbatim>\<open>OverflowError\<close> when the delay does
  not fit its clock, and \<^verbatim>\<open>ValueError\<close> when the delay is negative. CPython keeps the
  delay as a signed 64-bit count of nanoseconds and checks the conversion first, so the
  delays that fit are the whole seconds from \<open>- sleep_max\<close> to \<open>sleep_max\<close>, where
  \<open>sleep_max\<close> is \<open>(2 ^ 63 - 1) div 10 ^ 9\<close>. \<^verbatim>\<open>PYABS_DELAY\<close> is not validated, so
  both exceptions can happen. A delay that passes both checks goes to the operating
  system, which waits or refuses (it refuses a wait that ends beyond its own clock, which
  depends on the time since boot): its answer is an input, like the scanner's.
\<close>

definition sleep_max :: int where
  "sleep_max = 9223372036"

definition sleep :: "int \<Rightarrow> exn + unit \<Rightarrow> event list \<times> exn option" where
  "sleep secs os_reply =
     (if secs < - sleep_max \<or> sleep_max < secs then ([], Some OverflowError)
      else if secs < 0 then ([], Some ValueError)
      else (case os_reply of
              Inl e \<Rightarrow> ([Sleep secs], Some e)
            | Inr _ \<Rightarrow> ([Sleep secs], None)))"

text \<open>What the outside answers during one cycle.\<close>

record cycle_replies =
  who_reply :: "exn + string list list"
  paho :: broker_replies
  sleep_reply :: "exn + unit"

text \<open>
  One iteration of the loop, lines 164 to 180: the events, the state it leaves, and the
  exception that ended it, if any. Nothing in \<^verbatim>\<open>main\<close> handles an exception.
\<close>

definition loop_body ::
  "PyAbsenceConfig \<Rightarrow> MqttClient \<Rightarrow> state \<Rightarrow> cycle_replies \<Rightarrow> event list \<times> state \<times> exn option" where
  "loop_body config mq st env =
     (case who_reply env of
        Inl e \<Rightarrow> ([Scan], st, Some e)
      | Inr devices \<Rightarrow>
          (case mac_addresses_of devices of
             Inl e \<Rightarrow> ([Scan], st, Some e)
           | Inr mac_addresses \<Rightarrow>
               (case observe config st mac_addresses of
                  (logged, st1) \<Rightarrow>
                    if fires config st1
                    then (case notify mq (paho env) (mqttTopic config) ''on'' of
                            (evs, Some e) \<Rightarrow>
                              (Scan # logged @
                               Log (Info ''Everyone is missing for the last 5 minutes, I should turn off stuff'')
                               # evs, st1\<lparr>notified := True\<rparr>, Some e)
                          | (evs, None) \<Rightarrow>
                              (case sleep (delay config) (sleep_reply env) of
                                 (slept, r) \<Rightarrow>
                                   (Scan # logged @
                                    Log (Info ''Everyone is missing for the last 5 minutes, I should turn off stuff'')
                                    # evs @ slept, st1\<lparr>notified := True\<rparr>, r)))
                    else (case sleep (delay config) (sleep_reply env) of
                            (slept, r) \<Rightarrow> (Scan # logged @ slept, st1, r)))))"

text \<open>
  The loop, lines 163 to 180, over the answers of finitely many cycles. \<^verbatim>\<open>while True\<close>
  never ends by itself: the result \<open>None\<close> is the loop still running after the cycles
  given, \<open>Some e\<close> is the exception that ended it, and the process with it.
\<close>

fun main_loop ::
  "PyAbsenceConfig \<Rightarrow> MqttClient \<Rightarrow> state \<Rightarrow> cycle_replies list \<Rightarrow> event list \<times> state \<times> exn option" where
  "main_loop config mq st [] = ([], st, None)"
| "main_loop config mq st (env # envs) =
     (case loop_body config mq st env of
        (evs, st', Some e) \<Rightarrow> (evs, st', Some e)
      | (evs, st', None) \<Rightarrow>
          (case main_loop config mq st' envs of
             (evs', st'', r) \<Rightarrow> (evs @ evs', st'', r)))"

text \<open>The addresses a cycle hands to the controller, when the scan returned them.\<close>

definition addresses_seen :: "cycle_replies \<Rightarrow> string list" where
  "addresses_seen env =
     (case who_reply env of
        Inl e \<Rightarrow> []
      | Inr devices \<Rightarrow> (case mac_addresses_of devices of Inl e \<Rightarrow> [] | Inr macs \<Rightarrow> macs))"

text \<open>
  The configuration of the specification's scenario (one trigger, \<open>retries = 2\<close>), and the
  same with a negative threshold, which \<^verbatim>\<open>PyAbsenceConfig.__init__\<close> accepts.
\<close>

definition example_config :: PyAbsenceConfig where
  "example_config =
     \<lparr>triggers = [''AA:BB''], delay = 60, retries = 2, mqttBroker = ''broker.local'',
      mqttPort = 1883, mqttTopic = ''home/away'', mqttClient = ''pyabsence''\<rparr>"

definition negative_config :: PyAbsenceConfig where
  "negative_config = example_config\<lparr>retries := - 1\<rparr>"

text \<open>
  The client that \<^verbatim>\<open>main\<close> builds from that configuration, and brokers and scans to run
  the notifier and the loop on: a broker that accepts, one whose \<^verbatim>\<open>publish\<close> always
  reports a failure, one that fails twice and then accepts, one whose \<^verbatim>\<open>connect\<close> raises;
  a scan that returns devices with the given addresses in field 3, and one that raises,
  both in a cycle whose wait the operating system grants.
\<close>

definition example_mq :: MqttClient where
  "example_mq =
     MqttClient_init (mqttBroker example_config) (mqttPort example_config)
       (mqttClient example_config)"

definition accepting_broker :: broker_replies where
  "accepting_broker =
     \<lparr>connect_reply = Inr (), loop_start_reply = Inr (),
      publish_reply = (\<lambda>k. Inr (0, int k + 1)), loop_stop_reply = Inr ()\<rparr>"

definition rejecting_broker :: broker_replies where
  "rejecting_broker = accepting_broker\<lparr>publish_reply := (\<lambda>k. Inr (4, int k + 1))\<rparr>"

definition flaky_broker :: broker_replies where
  "flaky_broker =
     accepting_broker\<lparr>publish_reply := (\<lambda>k. Inr (if k < 2 then 4 else 0, int k + 1))\<rparr>"

definition refusing_broker :: broker_replies where
  "refusing_broker =
     accepting_broker\<lparr>connect_reply := Inl (LibraryError ''ConnectionRefusedError'')\<rparr>"

definition scan_of :: "string list \<Rightarrow> broker_replies \<Rightarrow> cycle_replies" where
  "scan_of macs answers =
     \<lparr>who_reply = Inr (map (\<lambda>mac. [''0'', ''192.168.1.2'', ''host'', mac]) macs), paho = answers,
      sleep_reply = Inr ()\<rparr>"

definition failed_scan :: cycle_replies where
  "failed_scan =
     \<lparr>who_reply = Inl (LibraryError ''scan failed''), paho = accepting_broker,
      sleep_reply = Inr ()\<rparr>"

text \<open>
  An environment with a negative \<^verbatim>\<open>PYABS_RETRIES\<close>, and the values of Python's \<^verbatim>\<open>int\<close> on
  the three numerals in it.
\<close>

definition negative_environ :: "string \<rightharpoonup> string" where
  "negative_environ =
     map_of [(''PYABS_TRIGGERS'', ''AA:BB''), (''PYABS_DELAY'', ''60''),
             (''PYABS_RETRIES'', ''-1''), (''MQTT_BROKER'', ''broker.local''),
             (''MQTT_PORT'', ''1883''), (''MQTT_TOPIC'', ''home/away''),
             (''MQTT_CLIENT'', ''pyabsence'')]"

definition int_of_numeral :: "string \<Rightarrow> exn + int" where
  "int_of_numeral s =
     (if s = ''60'' then Inr 60 else if s = ''-1'' then Inr (- 1)
      else if s = ''1883'' then Inr 1883 else Inl ValueError)"

section \<open>Properties of the controller\<close>

lemma sum_list_ones: "sum_list (map (\<lambda>s. 1) xs) = int (length xs)"
  by (induction xs) simp_all

lemma absent_iff: "absent config observed = no_trigger_observed config observed"
  by (auto simp: absent_def no_trigger_observed_def sum_list_ones filter_empty_conv)

lemma cycle_absent_count:
  "absent_count (fst (cycle config st obs)) =
     (if no_trigger_observed config obs then absent_count st + 1 else 0)"
  by (simp add: cycle_def observe_def absent_iff Let_def)

lemma final_state_append:
  "final_state config st (xs @ ys) = final_state config (final_state config st xs) ys"
  by (induction xs arbitrary: st) simp_all

lemma final_state_snoc:
  "final_state config st (xs @ [obs]) = fst (cycle config (final_state config st xs) obs)"
  by (simp add: final_state_append)

lemma absent_count_run:
  "absent_count (final_state config st observations) =
     (if list_all (no_trigger_observed config) observations
      then absent_count st + int (length observations)
      else int (trailing_absent_run config observations))"
proof (induction observations rule: rev_induct)
  case Nil
  then show ?case by simp
next
  case (snoc obs observations)
  then show ?case
    by (simp add: final_state_snoc cycle_absent_count trailing_absent_run_def)
qed

text \<open>
  C1. After any finite sequence of observations, processed from the initial state,
  \<open>absent_count\<close> is the length of the longest run of cycles without an observed trigger
  that ends at the last cycle.
\<close>

theorem C1_absent_count_is_trailing_run:
  "absent_count (final_state config initial observations) =
     int (trailing_absent_run config observations)"
proof (cases "list_all (no_trigger_observed config) observations")
  case True
  then have "\<forall>x\<in>set (rev observations). no_trigger_observed config x"
    by (simp add: list_all_iff)
  then have "takeWhile (no_trigger_observed config) (rev observations) = rev observations"
    by (simp only: takeWhile_eq_all_conv)
  then have "trailing_absent_run config observations = length observations"
    unfolding trailing_absent_run_def by (simp only: length_rev)
  with True show ?thesis
    by (simp add: absent_count_run initial_def)
next
  case False
  then show ?thesis by (simp add: absent_count_run)
qed


subsection \<open>One cycle, by verdict\<close>

lemma cycle_absent:
  "no_trigger_observed config obs \<Longrightarrow>
     cycle config st obs =
       (if retries config < absent_count st + 1 \<and> \<not> notified st
        then (st\<lparr>absent_count := absent_count st + 1, notified := True\<rparr>, True)
        else (st\<lparr>absent_count := absent_count st + 1\<rparr>, False))"
  by (simp add: cycle_def observe_def fires_def absent_iff Let_def)

lemma cycle_present:
  "\<not> no_trigger_observed config obs \<Longrightarrow>
     cycle config st obs =
       (if retries config < 0
        then (st\<lparr>absent_count := 0, notified := True\<rparr>, True)
        else (st\<lparr>absent_count := 0, notified := False\<rparr>, False))"
  by (simp add: cycle_def observe_def fires_def absent_iff Let_def)

lemma cycle_fires_iff:
  "snd (cycle config st obs) = fires config (snd (observe config st obs))"
  by (simp add: cycle_def Let_def)

lemma cycle_absent_count_observe:
  "absent_count (fst (cycle config st obs)) = absent_count (snd (observe config st obs))"
  by (simp add: cycle_def Let_def)

subsection \<open>Runs of cycles\<close>

lemma notifications_append:
  "notifications config st (xs @ ys) =
     notifications config st xs @ notifications config (final_state config st xs) ys"
  by (induction xs arbitrary: st) simp_all

lemma length_notifications [simp]:
  "length (notifications config st observations) = length observations"
  by (induction observations arbitrary: st) simp_all

lemma notifications_segment:
  "take (length ys) (drop (length xs) (notifications config st (xs @ ys @ zs))) =
     notifications config (final_state config st xs) ys"
  by (simp add: notifications_append)

text \<open>Once the flag is set, a run of absent cycles keeps it set and notifies no more.\<close>

lemma notified_absent_run:
  "notified st \<Longrightarrow> list_all (no_trigger_observed config) episode \<Longrightarrow>
     True \<notin> set (notifications config st episode) \<and>
     notified (final_state config st episode)"
proof (induction episode arbitrary: st)
  case Nil
  then show ?case by simp
next
  case (Cons obs episode)
  from Cons.prems have c: "cycle config st obs = (st\<lparr>absent_count := absent_count st + 1\<rparr>, False)"
    by (simp add: cycle_absent)
  have "notified (st\<lparr>absent_count := absent_count st + 1\<rparr>)"
    using Cons.prems by simp
  from Cons.IH [OF this] Cons.prems c show ?case by simp
qed

lemma absent_run_at_most_one:
  "list_all (no_trigger_observed config) episode \<Longrightarrow>
     count_list (notifications config st episode) True \<le> 1"
proof (induction episode arbitrary: st)
  case Nil
  then show ?case by simp
next
  case (Cons obs episode)
  show ?case
  proof (cases "snd (cycle config st obs)")
    case True
    with Cons.prems have "notified (fst (cycle config st obs))"
      by (simp add: cycle_absent split: if_splits)
    with Cons.prems have "True \<notin> set (notifications config (fst (cycle config st obs)) episode)"
      by (simp add: notified_absent_run)
    then have "count_list (notifications config (fst (cycle config st obs)) episode) True = 0"
      by simp
    with True show ?thesis by simp
  next
    case False
    with Cons.IH [of "fst (cycle config st obs)"] Cons.prems show ?thesis by simp
  qed
qed

text \<open>
  A run of absent cycles from a state whose flag is clear and whose counter has not passed
  the threshold: the one cycle that notifies is the one on which the counter passes it.
\<close>

lemma armed_absent_run_nth:
  "\<not> notified st \<Longrightarrow> absent_count st \<le> retries config \<Longrightarrow>
   list_all (no_trigger_observed config) episode \<Longrightarrow> k < length episode \<Longrightarrow>
     notifications config st episode ! k = (int k = retries config - absent_count st)"
proof (induction episode arbitrary: st k)
  case Nil
  then show ?case by simp
next
  case (Cons obs episode)
  show ?case
  proof (cases "absent_count st = retries config")
    case True
    with Cons.prems have c:
      "cycle config st obs = (st\<lparr>absent_count := absent_count st + 1, notified := True\<rparr>, True)"
      by (simp add: cycle_absent)
    show ?thesis
    proof (cases k)
      case 0
      with c True show ?thesis by simp
    next
      case (Suc j)
      have "True \<notin> set (notifications config
               (st\<lparr>absent_count := absent_count st + 1, notified := True\<rparr>) episode)"
        using Cons.prems by (simp add: notified_absent_run)
      moreover have "j < length (notifications config
               (st\<lparr>absent_count := absent_count st + 1, notified := True\<rparr>) episode)"
        using Cons.prems Suc by simp
      ultimately have "\<not> notifications config
               (st\<lparr>absent_count := absent_count st + 1, notified := True\<rparr>) episode ! j"
        by (metis (full_types) nth_mem)
      with c True Suc show ?thesis by simp
    qed
  next
    case False
    with Cons.prems have c:
      "cycle config st obs = (st\<lparr>absent_count := absent_count st + 1\<rparr>, False)"
      by (simp add: cycle_absent)
    show ?thesis
    proof (cases k)
      case 0
      with c False show ?thesis by simp
    next
      case (Suc j)
      have "notifications config (st\<lparr>absent_count := absent_count st + 1\<rparr>) episode ! j =
              (int j = retries config - absent_count (st\<lparr>absent_count := absent_count st + 1\<rparr>))"
        using Cons.prems False Suc by (intro Cons.IH) simp_all
      with c Suc show ?thesis by (simp add: algebra_simps)
    qed
  qed
qed

text \<open>The same run, counted: it notifies once if it is long enough, and not at all if not.\<close>

lemma armed_absent_run_count:
  "\<not> notified st \<Longrightarrow> absent_count st \<le> retries config \<Longrightarrow>
   list_all (no_trigger_observed config) episode \<Longrightarrow>
     count_list (notifications config st episode) True =
       (if retries config < absent_count st + int (length episode) then 1 else 0) \<and>
     notified (final_state config st episode) =
       (retries config < absent_count st + int (length episode)) \<and>
     absent_count (final_state config st episode) = absent_count st + int (length episode)"
proof (induction episode arbitrary: st)
  case Nil
  then show ?case by simp
next
  case (Cons obs episode)
  show ?case
  proof (cases "absent_count st = retries config")
    case True
    with Cons.prems have c:
      "cycle config st obs = (st\<lparr>absent_count := absent_count st + 1, notified := True\<rparr>, True)"
      by (simp add: cycle_absent)
    have n: "True \<notin> set (notifications config
               (st\<lparr>absent_count := absent_count st + 1, notified := True\<rparr>) episode) \<and>
             notified (final_state config
               (st\<lparr>absent_count := absent_count st + 1, notified := True\<rparr>) episode)"
      using Cons.prems by (simp add: notified_absent_run)
    then have "count_list (notifications config
               (st\<lparr>absent_count := absent_count st + 1, notified := True\<rparr>) episode) True = 0"
      by simp
    with c n True Cons.prems show ?thesis
      by (simp add: absent_count_run)
  next
    case False
    with Cons.prems have c:
      "cycle config st obs = (st\<lparr>absent_count := absent_count st + 1\<rparr>, False)"
      by (simp add: cycle_absent)
    have "count_list (notifications config (st\<lparr>absent_count := absent_count st + 1\<rparr>) episode) True =
       (if retries config < absent_count (st\<lparr>absent_count := absent_count st + 1\<rparr>) + int (length episode) then 1 else 0) \<and>
     notified (final_state config (st\<lparr>absent_count := absent_count st + 1\<rparr>) episode) =
       (retries config < absent_count (st\<lparr>absent_count := absent_count st + 1\<rparr>) + int (length episode)) \<and>
     absent_count (final_state config (st\<lparr>absent_count := absent_count st + 1\<rparr>) episode) =
       absent_count (st\<lparr>absent_count := absent_count st + 1\<rparr>) + int (length episode)"
      using Cons.prems False by (intro Cons.IH) simp_all
    with c show ?thesis by (simp add: algebra_simps)
  qed
qed


subsection \<open>The threshold is taken as it is parsed\<close>

lemma PyAbsenceConfig_init_retries:
  "PyAbsenceConfig_init py_int environ = Inr config \<Longrightarrow>
     \<exists>r. environ ''PYABS_RETRIES'' = Some r \<and> py_int r = Inr (retries config)"
  by (auto simp: PyAbsenceConfig_init_def getenv_def Let_def
           split: sum.splits option.splits if_splits)

lemma negative_config_from_environment:
  "PyAbsenceConfig_init int_of_numeral negative_environ = Inr negative_config"
  by (simp add: PyAbsenceConfig_init_def getenv_def negative_environ_def int_of_numeral_def
        negative_config_def example_config_def)

lemmas controller_defs =
  cycle_def observe_def fires_def absent_def no_trigger_observed_def initial_def
  example_config_def negative_config_def

text \<open>
  The specification's scenario: with \<open>retries = 2\<close> and the observations
  \<open>{}, {}, {}, {AA:BB}, {}\<close> the third cycle notifies and no other does; the counter ends at 1.
\<close>

lemma scenario_five_cycles:
  "notifications example_config initial [[], [], [], [''AA:BB''], []] =
     [False, False, True, False, False] \<and>
   final_state example_config initial [[], [], [], [''AA:BB''], []] =
     \<lparr>absent_count = 1, notified = False\<rparr>"
  by (simp add: controller_defs)

text \<open>
  C2. With \<open>retries\<close> not negative, a cycle notifies exactly when the counter it leaves
  exceeds \<open>retries\<close> and the flag was clear when the cycle began, whatever the state it
  began in. And in any run of observations, a stretch of consecutive absent cycles (an
  absence episode is such a stretch) holds at most one notification.
\<close>

theorem C2_notifies_iff_and_once_per_episode:
  "0 \<le> retries config \<Longrightarrow>
     (snd (cycle config st obs) \<longleftrightarrow>
        retries config < absent_count (fst (cycle config st obs)) \<and> \<not> notified st) \<and>
     (list_all (no_trigger_observed config) episode \<longrightarrow>
        count_list (take (length episode) (drop (length before)
          (notifications config initial (before @ episode @ after)))) True \<le> 1)"
proof (intro conjI impI)
  assume r: "0 \<le> retries config"
  show "snd (cycle config st obs) \<longleftrightarrow>
          retries config < absent_count (fst (cycle config st obs)) \<and> \<not> notified st"
  proof (cases "no_trigger_observed config obs")
    case True
    then show ?thesis by (simp add: cycle_absent)
  next
    case False
    with r show ?thesis by (simp add: cycle_present)
  qed
next
  assume "list_all (no_trigger_observed config) episode"
  then show "count_list (take (length episode) (drop (length before)
          (notifications config initial (before @ episode @ after)))) True \<le> 1"
    by (simp only: notifications_segment absent_run_at_most_one)
qed

theorem C2_witness:
  "0 \<le> retries example_config \<and>
   snd (cycle example_config \<lparr>absent_count = 2, notified = False\<rparr> []) \<and>
   \<not> snd (cycle example_config \<lparr>absent_count = 3, notified = True\<rparr> []) \<and>
   list_all (no_trigger_observed example_config) [[], [], [], []] \<and>
   count_list (take 4 (drop 1
     (notifications example_config initial
        ([[''AA:BB'']] @ [[], [], [], []] @ [[''AA:BB'']])))) True = 1"
  using C2_notifies_iff_and_once_per_episode
          [of example_config "\<lparr>absent_count = 2, notified = False\<rparr>" "[]"
              "[[], [], [], []]" "[[''AA:BB'']]" "[[''AA:BB'']]"]
  by (simp add: controller_defs)

text \<open>
  C3. The comparison is strict: in a run of absent cycles from the initial state, with
  \<open>retries\<close> not negative, the cycle that notifies is the one numbered \<open>retries + 1\<close>
  (index \<open>retries\<close>, counting from 0) and no other. With \<open>retries = 0\<close> the first absent
  cycle notifies.
\<close>

theorem C3_fires_on_cycle_retries_plus_one:
  "0 \<le> retries config \<Longrightarrow> list_all (no_trigger_observed config) observations \<Longrightarrow>
     (k < length observations \<longrightarrow>
        notifications config initial observations ! k = (k = nat (retries config))) \<and>
     (retries config = 0 \<and> observations \<noteq> [] \<longrightarrow>
        snd (cycle config initial (hd observations)))"
proof (intro conjI impI)
  assume r: "0 \<le> retries config" and a: "list_all (no_trigger_observed config) observations"
  {
    assume "k < length observations"
    with r a have "notifications config initial observations ! k =
                     (int k = retries config - absent_count initial)"
      by (intro armed_absent_run_nth) (simp_all add: initial_def)
    with r show "notifications config initial observations ! k = (k = nat (retries config))"
      by (auto simp: initial_def)
  }
  {
    assume "retries config = 0 \<and> observations \<noteq> []"
    with a show "snd (cycle config initial (hd observations))"
      by (cases observations) (simp_all add: cycle_absent initial_def)
  }
qed

theorem C3_witness:
  "0 \<le> retries example_config \<and>
   list_all (no_trigger_observed example_config) [[], [], [], [], []] \<and>
   notifications example_config initial [[], [], [], [], []] ! 2 \<and>
   \<not> notifications example_config initial [[], [], [], [], []] ! 1 \<and>
   \<not> notifications example_config initial [[], [], [], [], []] ! 3 \<and>
   snd (cycle (example_config\<lparr>retries := 0\<rparr>) initial [])"
  using C3_fires_on_cycle_retries_plus_one [of example_config "[[], [], [], [], []]" 2]
        C3_fires_on_cycle_retries_plus_one [of "example_config\<lparr>retries := 0\<rparr>" "[[]]" 0]
  by (simp add: controller_defs)

text \<open>
  C4. A cycle that observes a trigger sets the counter to 0 and clears the flag, whatever
  the state before (lines 170 to 174). With \<open>retries\<close> not negative nothing else in the
  cycle touches them, so the cycle leaves that state. A second such cycle changes nothing.
\<close>

theorem C4_presence_resets:
  "\<not> no_trigger_observed config obs \<Longrightarrow>
     snd (observe config st obs) = \<lparr>absent_count = 0, notified = False\<rparr> \<and>
     (0 \<le> retries config \<longrightarrow>
        fst (cycle config st obs) = \<lparr>absent_count = 0, notified = False\<rparr>) \<and>
     (\<not> no_trigger_observed config obs' \<longrightarrow>
        snd (observe config (snd (observe config st obs)) obs') = snd (observe config st obs) \<and>
        fst (cycle config (fst (cycle config st obs)) obs') = fst (cycle config st obs))"
  by (simp add: cycle_present observe_def absent_iff)

theorem C4_witness:
  "\<not> no_trigger_observed example_config [''11:22'', ''AA:BB''] \<and>
   0 \<le> retries example_config \<and>
   \<not> no_trigger_observed example_config [''AA:BB''] \<and>
   fst (cycle example_config \<lparr>absent_count = 7, notified = True\<rparr> [''11:22'', ''AA:BB'']) =
     \<lparr>absent_count = 0, notified = False\<rparr> \<and>
   fst (cycle example_config
          (fst (cycle example_config \<lparr>absent_count = 7, notified = True\<rparr> [''11:22'', ''AA:BB'']))
          [''AA:BB'']) =
     \<lparr>absent_count = 0, notified = False\<rparr>"
  using C4_presence_resets
          [of example_config "[''11:22'', ''AA:BB'']" "\<lparr>absent_count = 7, notified = True\<rparr>"
              "[''AA:BB'']"]
  by (simp add: controller_defs)


text \<open>
  C5. From the initial state, with \<open>retries\<close> not negative: \<open>retries + 1\<close> absent cycles,
  one cycle with a trigger, and \<open>retries + 1\<close> absent cycles again call \<^verbatim>\<open>mq.notify\<close>
  exactly twice.
\<close>

theorem C5_two_episodes_two_notifications:
  "0 \<le> retries config \<Longrightarrow>
   list_all (no_trigger_observed config) first \<Longrightarrow> length first = nat (retries config) + 1 \<Longrightarrow>
   \<not> no_trigger_observed config present \<Longrightarrow>
   list_all (no_trigger_observed config) second \<Longrightarrow> length second = nat (retries config) + 1 \<Longrightarrow>
     count_list (notifications config initial (first @ [present] @ second)) True = 2"
proof -
  assume r: "0 \<le> retries config"
    and f: "list_all (no_trigger_observed config) first" "length first = nat (retries config) + 1"
    and p: "\<not> no_trigger_observed config present"
    and s: "list_all (no_trigger_observed config) second" "length second = nat (retries config) + 1"
  have one: "count_list (notifications config initial episode) True = 1"
    if "list_all (no_trigger_observed config) episode" "length episode = nat (retries config) + 1"
    for episode
    using armed_absent_run_count [of initial config episode] r that
    by (simp add: initial_def)
  have reset: "cycle config (final_state config initial first) present = (initial, False)"
    using p r by (simp add: cycle_present initial_def)
  have "notifications config initial (first @ [present] @ second) =
          notifications config initial first @ [False] @ notifications config initial second"
    by (simp add: notifications_append reset)
  then show ?thesis
    using one [OF f] one [OF s] by simp
qed

theorem C5_witness:
  "0 \<le> retries example_config \<and>
   list_all (no_trigger_observed example_config) [[], [''11:22''], []] \<and>
   length [[], [''11:22''], []::string list] = nat (retries example_config) + 1 \<and>
   \<not> no_trigger_observed example_config [''AA:BB''] \<and>
   count_list (notifications example_config initial
      ([[], [''11:22''], []] @ [[''AA:BB'']] @ [[], [''11:22''], []])) True = 2"
  using C5_two_episodes_two_notifications
          [of example_config "[[], [''11:22''], []]" "[''AA:BB'']" "[[], [''11:22''], []]"]
  by (simp add: controller_defs)

text \<open>
  C6. In a state reached from the initial one by any observations, a cycle sets the flag
  only if the counter it leaves exceeds \<open>retries\<close>, and clears it only if it observed a
  trigger.
\<close>

theorem C6_notified_transitions:
  "(\<not> notified (final_state config initial observations) \<and>
    notified (fst (cycle config (final_state config initial observations) obs)) \<longrightarrow>
      retries config <
        absent_count (fst (cycle config (final_state config initial observations) obs))) \<and>
   (notified (final_state config initial observations) \<and>
    \<not> notified (fst (cycle config (final_state config initial observations) obs)) \<longrightarrow>
      \<not> no_trigger_observed config obs)"
  by (cases "no_trigger_observed config obs") (auto simp: cycle_absent cycle_present)

theorem C6_witness:
  "(\<not> notified (final_state example_config initial [[], []]) \<and>
    notified (fst (cycle example_config (final_state example_config initial [[], []]) [])) \<and>
    retries example_config <
      absent_count (fst (cycle example_config (final_state example_config initial [[], []]) []))) \<and>
   (notified (final_state example_config initial [[], [], []]) \<and>
    \<not> notified (fst (cycle example_config (final_state example_config initial [[], [], []])
                    [''AA:BB''])) \<and>
    \<not> no_trigger_observed example_config [''AA:BB''])"
  using C6_notified_transitions [of example_config "[[], []]" "[]"]
        C6_notified_transitions [of example_config "[[], [], []]" "[''AA:BB'']"]
  by (simp add: controller_defs)

text \<open>
  C10, as the specification has it, fails in its second half: at most one notification for
  an absence episode does not need \<open>retries\<close> to be non-negative. With \<open>retries = - 1\<close> no
  stretch of absent cycles of any run holds two notifications. On the run below the
  cycles that observe the trigger notify, the first absent cycle after the start notifies
  in the first run, and the episode between two presence cycles holds no notification at
  all.
\<close>

theorem C10_counterexample:
  "retries negative_config < 0 \<and>
   \<not> (\<exists>before episode after.
         list_all (no_trigger_observed negative_config) episode \<and>
         1 < count_list (take (length episode) (drop (length before)
               (notifications negative_config initial (before @ episode @ after)))) True) \<and>
   notifications negative_config initial [[], [], []] = [True, False, False] \<and>
   notifications negative_config initial [[''AA:BB''], [], [], [], [''AA:BB'']] =
     [True, False, False, False, True]"
proof (intro conjI)
  show "retries negative_config < 0"
    by (simp add: negative_config_def)
next
  show "\<not> (\<exists>before episode after.
         list_all (no_trigger_observed negative_config) episode \<and>
         1 < count_list (take (length episode) (drop (length before)
               (notifications negative_config initial (before @ episode @ after)))) True)"
  proof
    assume "\<exists>before episode after.
         list_all (no_trigger_observed negative_config) episode \<and>
         1 < count_list (take (length episode) (drop (length before)
               (notifications negative_config initial (before @ episode @ after)))) True"
    then obtain before episode after
      where a: "list_all (no_trigger_observed negative_config) episode"
        and c: "1 < count_list (take (length episode) (drop (length before)
               (notifications negative_config initial (before @ episode @ after)))) True"
      by blast
    from a have "count_list (notifications negative_config
                   (final_state negative_config initial before) episode) True \<le> 1"
      by (rule absent_run_at_most_one)
    with c show False by (simp only: notifications_segment)
  qed
next
  show "notifications negative_config initial [[], [], []] = [True, False, False]"
    by (simp add: controller_defs)
next
  show "notifications negative_config initial [[''AA:BB''], [], [], [], [''AA:BB'']] =
          [True, False, False, False, True]"
    by (simp add: controller_defs)
qed

text \<open>
  C10, amended. With \<open>retries\<close> negative the first cycle notifies whatever it observes, a
  trigger included: the counter, reset to 0, already exceeds \<open>retries\<close>. Every cycle that
  observes a trigger then notifies, from any state, also one entered with the flag set:
  what needs \<open>retries\<close> non-negative is that a notification comes only on a cycle entered
  with the flag clear, and with it that notifications belong to absence episodes. That a
  stretch of consecutive absent cycles holds at most one notification is true with
  \<open>retries\<close> negative too.
\<close>

theorem C10_negative_retries_notify_on_presence:
  "retries config < 0 \<Longrightarrow>
     snd (cycle config initial obs) \<and>
     (\<not> no_trigger_observed config obs \<longrightarrow>
        snd (cycle config st obs) \<and>
        absent_count (snd (observe config st obs)) = 0 \<and>
        retries config < absent_count (snd (observe config st obs)) \<and>
        (notified st \<longrightarrow>
           \<not> (snd (cycle config st obs) \<longleftrightarrow>
                retries config < absent_count (fst (cycle config st obs)) \<and> \<not> notified st))) \<and>
     (list_all (no_trigger_observed config) episode \<longrightarrow>
        count_list (take (length episode) (drop (length before)
          (notifications config initial (before @ episode @ after)))) True \<le> 1)"
proof (intro conjI impI)
  assume r: "retries config < 0"
  then show "snd (cycle config initial obs)"
    by (cases "no_trigger_observed config obs")
       (simp_all add: cycle_absent cycle_present initial_def)
  {
    assume p: "\<not> no_trigger_observed config obs"
    with r show f: "snd (cycle config st obs)"
      by (simp add: cycle_present)
    from p show "absent_count (snd (observe config st obs)) = 0"
      by (simp add: observe_def absent_iff)
    from p r show "retries config < absent_count (snd (observe config st obs))"
      by (simp add: observe_def absent_iff)
    assume "notified st"
    with f show "\<not> (snd (cycle config st obs) \<longleftrightarrow>
                retries config < absent_count (fst (cycle config st obs)) \<and> \<not> notified st)"
      by simp
  }
next
  assume "list_all (no_trigger_observed config) episode"
  then show "count_list (take (length episode) (drop (length before)
          (notifications config initial (before @ episode @ after)))) True \<le> 1"
    by (simp only: notifications_segment absent_run_at_most_one)
qed

theorem C10_witness:
  "retries negative_config < 0 \<and>
   \<not> no_trigger_observed negative_config [''AA:BB''] \<and>
   snd (cycle negative_config initial [''AA:BB'']) \<and>
   notified \<lparr>absent_count = 3, notified = True\<rparr> \<and>
   snd (cycle negative_config \<lparr>absent_count = 3, notified = True\<rparr> [''AA:BB'']) \<and>
   list_all (no_trigger_observed negative_config) [[], [''11:22''], []] \<and>
   count_list (take 3 (drop 2
     (notifications negative_config initial
        ([[''AA:BB''], [''AA:BB'']] @ [[], [''11:22''], []] @ [[''AA:BB'']])))) True = 0 \<and>
   notifications negative_config initial [[''AA:BB''], [''AA:BB''], [], [], [''AA:BB'']] =
     [True, True, False, False, True]"
  using C10_negative_retries_notify_on_presence
          [of negative_config "[''AA:BB'']" "\<lparr>absent_count = 3, notified = True\<rparr>"
              "[[], [''11:22''], []]" "[[''AA:BB''], [''AA:BB'']]" "[[''AA:BB'']]"]
  by (simp add: controller_defs)


section \<open>Properties of the notifier\<close>

declare publish_loop.simps [simp del]

lemma publish_attempts_append:
  "publish_attempts (xs @ ys) = publish_attempts xs + publish_attempts ys"
  by (induction xs rule: publish_attempts.induct) simp_all

lemma notify_calls_append:
  "notify_calls (xs @ ys) = notify_calls xs + notify_calls ys"
  by (induction xs rule: notify_calls.induct) simp_all

text \<open>The loop calls \<^verbatim>\<open>publish\<close> at most once for each value of \<open>attempts\<close> below 5.\<close>

lemma publish_loop_attempts_le:
  "publish_attempts (fst (publish_loop broker topic msg attempts)) \<le> 5 - attempts"
proof (induction broker topic msg attempts rule: publish_loop.induct)
  case (1 broker topic msg attempts)
  show ?case
  proof (cases "attempts < 5")
    case False
    then show ?thesis by (simp add: publish_loop.simps [of broker topic msg attempts])
  next
    case True
    show ?thesis
    proof (cases "publish_reply broker attempts")
      case (Inl e)
      with True show ?thesis by (simp add: publish_loop.simps [of broker topic msg attempts])
    next
      case (Inr result)
      show ?thesis
      proof (cases "fst result = 0")
        case z: True
        with True Inr show ?thesis
          by (simp add: publish_loop.simps [of broker topic msg attempts])
      next
        case nz: False
        with "1.IH" [OF True Inr refl] True Inr show ?thesis
          by (simp add: publish_loop.simps [of broker topic msg attempts] case_prod_beta)
      qed
    qed
  qed
qed

lemma publish_loop_no_connect:
  "notify_calls (fst (publish_loop broker topic msg attempts)) = 0"
proof (induction broker topic msg attempts rule: publish_loop.induct)
  case (1 broker topic msg attempts)
  show ?case
  proof (cases "attempts < 5")
    case False
    then show ?thesis by (simp add: publish_loop.simps [of broker topic msg attempts])
  next
    case True
    show ?thesis
    proof (cases "publish_reply broker attempts")
      case (Inl e)
      with True show ?thesis by (simp add: publish_loop.simps [of broker topic msg attempts])
    next
      case (Inr result)
      show ?thesis
      proof (cases "fst result = 0")
        case z: True
        with True Inr show ?thesis
          by (simp add: publish_loop.simps [of broker topic msg attempts])
      next
        case nz: False
        with "1.IH" [OF True Inr refl] True Inr show ?thesis
          by (simp add: publish_loop.simps [of broker topic msg attempts] case_prod_beta)
      qed
    qed
  qed
qed

text \<open>
  Failures up to call \<open>k\<close> and a success there: the loop makes the calls from \<open>attempts\<close> to
  \<open>k\<close>, logs a failure for each but the last, and returns.
\<close>

lemma publish_loop_first_success:
  "attempts \<le> k \<Longrightarrow> k < 5 \<Longrightarrow>
   list_all (\<lambda>j. reports_failure (publish_reply broker j)) [attempts..<k] \<Longrightarrow>
   reports_success (publish_reply broker k) \<Longrightarrow>
     publish_attempts (fst (publish_loop broker topic msg attempts)) = k + 1 - attempts \<and>
     snd (publish_loop broker topic msg attempts) = None"
proof (induction broker topic msg attempts rule: publish_loop.induct)
  case (1 broker topic msg attempts)
  show ?case
  proof (cases "attempts = k")
    case True
    with "1.prems" show ?thesis
      by (auto simp: publish_loop.simps [of broker topic msg k] reports_success_def
               split: sum.splits)
  next
    case False
    with "1.prems" have lt: "attempts < k" by simp
    then have "[attempts..<k] = attempts # [attempts + 1..<k]"
      by (simp add: upt_conv_Cons)
    with "1.prems" have f: "reports_failure (publish_reply broker attempts)"
      and rest: "list_all (\<lambda>j. reports_failure (publish_reply broker j)) [attempts + 1..<k]"
      by simp_all
    from f obtain result where r: "publish_reply broker attempts = Inr result" "fst result \<noteq> 0"
      by (auto simp: reports_failure_def split: sum.splits)
    from lt "1.prems" have a5: "attempts < 5" by simp
    have "publish_attempts (fst (publish_loop broker topic msg (attempts + 1))) =
            k + 1 - (attempts + 1) \<and>
          snd (publish_loop broker topic msg (attempts + 1)) = None"
      using "1.IH" [OF a5 r(1) refl r(2)] lt "1.prems" rest by simp
    with a5 r lt show ?thesis
      by (simp add: publish_loop.simps [of broker topic msg attempts] case_prod_beta)
  qed
qed

text \<open>Failures all the way: the loop makes every call that is left, logs each, and returns.\<close>

lemma publish_loop_all_fail:
  "list_all (\<lambda>j. reports_failure (publish_reply broker j)) [attempts..<5] \<Longrightarrow>
     publish_attempts (fst (publish_loop broker topic msg attempts)) = 5 - attempts \<and>
     count_list (fst (publish_loop broker topic msg attempts))
       (Log (Info (''Failed to send message to topic '' @ topic))) = 5 - attempts \<and>
     snd (publish_loop broker topic msg attempts) = None"
proof (induction broker topic msg attempts rule: publish_loop.induct)
  case (1 broker topic msg attempts)
  show ?case
  proof (cases "attempts < 5")
    case False
    then show ?thesis by (simp add: publish_loop.simps [of broker topic msg attempts])
  next
    case True
    then have "[attempts..<5] = attempts # [attempts + 1..<5]"
      by (simp add: upt_conv_Cons)
    with "1.prems" have f: "reports_failure (publish_reply broker attempts)"
      and rest: "list_all (\<lambda>j. reports_failure (publish_reply broker j)) [attempts + 1..<5]"
      by simp_all
    from f obtain result where r: "publish_reply broker attempts = Inr result" "fst result \<noteq> 0"
      by (auto simp: reports_failure_def split: sum.splits)
    have "publish_attempts (fst (publish_loop broker topic msg (attempts + 1))) =
            5 - (attempts + 1) \<and>
          count_list (fst (publish_loop broker topic msg (attempts + 1)))
            (Log (Info (''Failed to send message to topic '' @ topic))) = 5 - (attempts + 1) \<and>
          snd (publish_loop broker topic msg (attempts + 1)) = None"
      using "1.IH" [OF True r(1) refl r(2)] rest by simp
    with True r show ?thesis
      by (simp add: publish_loop.simps [of broker topic msg attempts] case_prod_beta)
  qed
qed

lemma notify_attempts_le: "publish_attempts (fst (notify mq broker topic msg)) \<le> 5"
proof -
  have "publish_attempts (fst (MqttClient_publish broker topic msg)) \<le> 5"
    using publish_loop_attempts_le [of broker topic msg 0] by (simp add: MqttClient_publish_def)
  then show ?thesis
    by (cases "snd (MqttClient_publish broker topic msg)")
       (simp_all add: notify_def Let_def publish_attempts_append case_prod_beta
             split: sum.splits)
qed

lemma notify_calls_notify: "notify_calls (fst (notify mq broker topic msg)) = 1"
proof -
  have "notify_calls (fst (MqttClient_publish broker topic msg)) = 0"
    by (simp add: MqttClient_publish_def publish_loop_no_connect)
  then show ?thesis
    by (cases "snd (MqttClient_publish broker topic msg)")
       (simp_all add: notify_def Let_def notify_calls_append case_prod_beta
             split: sum.splits)
qed


section \<open>Properties of the loop\<close>

lemma notify_calls_observe: "notify_calls (fst (observe config st macs)) = 0"
  by (simp add: observe_def)

lemma notify_calls_sleep: "notify_calls (fst (sleep secs os_reply)) = 0"
  by (simp add: sleep_def split: sum.splits)

lemma addresses_seen_scan:
  "who_reply env = Inr devices \<Longrightarrow> mac_addresses_of devices = Inr macs \<Longrightarrow>
     addresses_seen env = macs"
  by (simp add: addresses_seen_def)

text \<open>A scan that raises, or a device without field 3, ends the iteration at once.\<close>

lemma loop_body_scan_raises:
  "who_reply env = Inl e \<Longrightarrow> loop_body config mq st env = ([Scan], st, Some e)"
  by (simp add: loop_body_def)

text \<open>
  When the scan returns addresses, the iteration leaves the state that \<open>cycle\<close> computes
  and calls \<^verbatim>\<open>notify\<close> exactly when \<open>cycle\<close> says so, whatever happens in \<^verbatim>\<open>notify\<close> and
  \<^verbatim>\<open>sleep\<close>.
\<close>

lemma loop_body_cycle:
  "who_reply env = Inr devices \<Longrightarrow> mac_addresses_of devices = Inr macs \<Longrightarrow>
     fst (snd (loop_body config mq st env)) = fst (cycle config st macs) \<and>
     notify_calls (fst (loop_body config mq st env)) = (if snd (cycle config st macs) then 1 else 0)"
proof -
  assume w: "who_reply env = Inr devices" and m: "mac_addresses_of devices = Inr macs"
  show ?thesis
  proof (cases "fires config (snd (observe config st macs))")
    case False
    with w m show ?thesis
      by (simp add: loop_body_def cycle_def case_prod_beta notify_calls_append
            notify_calls_observe notify_calls_sleep)
  next
    case True
    have n: "notify_calls (fst (notify mq (paho env) (mqttTopic config) ''on'')) = 1"
      by (rule notify_calls_notify)
    show ?thesis
    proof (cases "snd (notify mq (paho env) (mqttTopic config) ''on'')")
      case None
      with w m True n show ?thesis
        by (simp add: loop_body_def cycle_def case_prod_beta notify_calls_append
              notify_calls_observe notify_calls_sleep)
    next
      case (Some e)
      with w m True n show ?thesis
        by (simp add: loop_body_def cycle_def case_prod_beta notify_calls_append
              notify_calls_observe notify_calls_sleep)
    qed
  qed
qed

lemma loop_body_returns_scanned:
  "snd (snd (loop_body config mq st env)) = None \<Longrightarrow>
     \<exists>devices macs. who_reply env = Inr devices \<and> mac_addresses_of devices = Inr macs"
  by (auto simp: loop_body_def split: sum.splits)

lemma loop_body_running:
  "snd (snd (loop_body config mq st env)) = None \<Longrightarrow>
     fst (snd (loop_body config mq st env)) = fst (cycle config st (addresses_seen env)) \<and>
     notify_calls (fst (loop_body config mq st env)) =
       (if snd (cycle config st (addresses_seen env)) then 1 else 0)"
proof -
  assume "snd (snd (loop_body config mq st env)) = None"
  then obtain devices macs
    where s: "who_reply env = Inr devices" "mac_addresses_of devices = Inr macs"
    using loop_body_returns_scanned by blast
  then have "addresses_seen env = macs" by (rule addresses_seen_scan)
  with loop_body_cycle [OF s] show ?thesis by simp
qed

text \<open>An exception in an iteration is the end of the loop: the later cycles do not happen.\<close>

lemma main_loop_raises:
  "snd (snd (loop_body config mq st env)) = Some e \<Longrightarrow>
     main_loop config mq st (env # later) = loop_body config mq st env"
  by (cases "loop_body config mq st env") simp

lemma main_loop_continues:
  "snd (snd (loop_body config mq st env)) = None \<Longrightarrow>
     main_loop config mq st (env # later) =
       (fst (loop_body config mq st env) @
          fst (main_loop config mq (fst (snd (loop_body config mq st env))) later),
        snd (main_loop config mq (fst (snd (loop_body config mq st env))) later))"
  by (cases "loop_body config mq st env") (simp add: case_prod_beta)

text \<open>
  As long as the loop runs, it is the controller of the first part: its state is
  \<open>final_state\<close> on the addresses seen, and it calls \<^verbatim>\<open>notify\<close> once for each cycle that
  \<open>notifications\<close> marks.
\<close>

lemma main_loop_running:
  "snd (snd (main_loop config mq st envs)) = None \<Longrightarrow>
     fst (snd (main_loop config mq st envs)) = final_state config st (map addresses_seen envs) \<and>
     notify_calls (fst (main_loop config mq st envs)) =
       count_list (notifications config st (map addresses_seen envs)) True"
proof (induction envs arbitrary: st)
  case Nil
  then show ?case by simp
next
  case (Cons env envs)
  show ?case
  proof (cases "snd (snd (loop_body config mq st env))")
    case (Some e)
    with Cons.prems show ?thesis by (simp add: main_loop_raises del: main_loop.simps)
  next
    case None
    note b = loop_body_running [OF None]
    from Cons.prems None
    have "snd (snd (main_loop config mq (fst (snd (loop_body config mq st env))) envs)) = None"
      by (simp add: main_loop_continues del: main_loop.simps)
    from Cons.IH [OF this] b None show ?thesis
      by (simp add: main_loop_continues notify_calls_append del: main_loop.simps)
  qed
qed

text \<open>
  Once the flag is set, cycles that observe no trigger do not call \<^verbatim>\<open>notify\<close>, whether
  the loop keeps running or not.
\<close>

lemma main_loop_no_second_call:
  "notified st \<Longrightarrow> list_all (\<lambda>env. no_trigger_observed config (addresses_seen env)) envs \<Longrightarrow>
     notify_calls (fst (main_loop config mq st envs)) = 0"
proof (induction envs arbitrary: st)
  case Nil
  then show ?case by simp
next
  case (Cons env envs)
  from Cons.prems have a: "no_trigger_observed config (addresses_seen env)" by simp
  have body: "notify_calls (fst (loop_body config mq st env)) = 0 \<and>
              notified (fst (snd (loop_body config mq st env)))"
  proof (cases "who_reply env")
    case (Inl e)
    with Cons.prems show ?thesis by (simp add: loop_body_def)
  next
    case (Inr devices)
    show ?thesis
    proof (cases "mac_addresses_of devices")
      case (Inl e)
      with Inr Cons.prems show ?thesis by (simp add: loop_body_def)
    next
      case macs: (Inr macs)
      with Inr a have "no_trigger_observed config macs"
        by (simp add: addresses_seen_def)
      with Cons.prems have "cycle config st macs = (st\<lparr>absent_count := absent_count st + 1\<rparr>, False)"
        by (simp add: cycle_absent)
      with loop_body_cycle [OF Inr macs, of config mq st] Cons.prems show ?thesis by simp
    qed
  qed
  show ?case
  proof (cases "snd (snd (loop_body config mq st env))")
    case (Some e)
    with body show ?thesis by (simp add: main_loop_raises del: main_loop.simps)
  next
    case None
    from body Cons.prems
    have "notify_calls (fst (main_loop config mq (fst (snd (loop_body config mq st env))) envs)) = 0"
      by (intro Cons.IH) simp_all
    with body None show ?thesis
      by (simp add: main_loop_continues notify_calls_append del: main_loop.simps)
  qed
qed

lemma loop_body_called_notify:
  "notify_calls (fst (loop_body config mq st env)) = 1 \<Longrightarrow>
     notified (fst (snd (loop_body config mq st env)))"
proof (cases "who_reply env")
  case (Inl e)
  assume "notify_calls (fst (loop_body config mq st env)) = 1"
  with Inl show ?thesis by (simp add: loop_body_def)
next
  case (Inr devices)
  assume c: "notify_calls (fst (loop_body config mq st env)) = 1"
  show ?thesis
  proof (cases "mac_addresses_of devices")
    case (Inl e)
    with Inr c show ?thesis by (simp add: loop_body_def)
  next
    case macs: (Inr macs)
    note b = loop_body_cycle [OF Inr macs, of config mq st]
    from b c have "snd (cycle config st macs)"
      by (cases "snd (cycle config st macs)") simp_all
    then have "notified (fst (cycle config st macs))"
      by (simp add: cycle_def Let_def split: if_splits)
    with b show ?thesis by simp
  qed
qed


lemma publish_loop_returns:
  "list_all (\<lambda>k. \<not> isl (publish_reply broker k)) [attempts..<5] \<Longrightarrow>
     snd (publish_loop broker topic msg attempts) = None"
proof (induction broker topic msg attempts rule: publish_loop.induct)
  case (1 broker topic msg attempts)
  show ?case
  proof (cases "attempts < 5")
    case False
    then show ?thesis by (simp add: publish_loop.simps [of broker topic msg attempts])
  next
    case True
    then have "[attempts..<5] = attempts # [attempts + 1..<5]"
      by (simp add: upt_conv_Cons)
    with "1.prems" have f: "\<not> isl (publish_reply broker attempts)"
      and rest: "list_all (\<lambda>k. \<not> isl (publish_reply broker k)) [attempts + 1..<5]"
      by simp_all
    from f obtain result where r: "publish_reply broker attempts = Inr result"
      by (cases "publish_reply broker attempts") simp_all
    show ?thesis
    proof (cases "fst result = 0")
      case z: True
      with True r show ?thesis by (simp add: publish_loop.simps [of broker topic msg attempts])
    next
      case nz: False
      with "1.IH" [OF True r refl nz] rest True r show ?thesis
        by (simp add: publish_loop.simps [of broker topic msg attempts] case_prod_beta)
    qed
  qed
qed

lemma notify_returns_iff:
  "snd (notify mq broker topic msg) = None \<longleftrightarrow>
     \<not> isl (connect_reply broker) \<and> \<not> isl (loop_start_reply broker) \<and>
     snd (MqttClient_publish broker topic msg) = None \<and> \<not> isl (loop_stop_reply broker)"
  by (cases "snd (MqttClient_publish broker topic msg)")
     (simp_all add: notify_def Let_def case_prod_beta split: sum.splits)

lemmas notifier_defs =
  notify_def MqttClient_publish_def MqttClient_init_def reports_failure_def reports_success_def
  example_mq_def accepting_broker_def rejecting_broker_def flaky_broker_def refusing_broker_def

lemmas loop_defs =
  loop_body_def sleep_def sleep_max_def addresses_seen_def scan_of_def failed_scan_def

text \<open>
  C7. One call of \<^verbatim>\<open>notify\<close> calls \<^verbatim>\<open>publish\<close> at most 5 times, whatever the broker
  answers. If the first answer that reports success is answer \<open>k\<close>, after failures only,
  the loop stops there, after \<open>k + 1\<close> calls. If the 5 answers all report failure, the loop
  has called 5 times and logged 5 failures, and it returns; so does \<^verbatim>\<open>notify\<close>, when the
  other calls of the library return. And a cycle that called \<^verbatim>\<open>notify\<close> leaves the flag
  set, whatever became of the call: the cycles after it that observe no trigger do not
  call again.
\<close>

theorem C7_at_most_five_publish_attempts:
  "publish_attempts (fst (notify mq broker topic msg)) \<le> 5 \<and>
   (k < 5 \<and> list_all (\<lambda>j. reports_failure (publish_reply broker j)) [0..<k] \<and>
    reports_success (publish_reply broker k) \<longrightarrow>
      publish_attempts (fst (MqttClient_publish broker topic msg)) = k + 1 \<and>
      snd (MqttClient_publish broker topic msg) = None) \<and>
   (list_all (\<lambda>j. reports_failure (publish_reply broker j)) [0..<5] \<longrightarrow>
      publish_attempts (fst (MqttClient_publish broker topic msg)) = 5 \<and>
      count_list (fst (MqttClient_publish broker topic msg))
        (Log (Info (''Failed to send message to topic '' @ topic))) = 5 \<and>
      snd (MqttClient_publish broker topic msg) = None \<and>
      (connect_reply broker = Inr () \<and> loop_start_reply broker = Inr () \<and>
       loop_stop_reply broker = Inr () \<longrightarrow>
         snd (notify mq broker topic msg) = None \<and>
         publish_attempts (fst (notify mq broker topic msg)) = 5)) \<and>
   (notify_calls (fst (loop_body config mq st env)) = 1 \<and>
    list_all (\<lambda>env. no_trigger_observed config (addresses_seen env)) later \<longrightarrow>
      notify_calls (fst (main_loop config mq (fst (snd (loop_body config mq st env))) later)) = 0)"
proof (intro conjI impI)
  show "publish_attempts (fst (notify mq broker topic msg)) \<le> 5"
    by (rule notify_attempts_le)
next
  assume h: "k < 5 \<and> list_all (\<lambda>j. reports_failure (publish_reply broker j)) [0..<k] \<and>
    reports_success (publish_reply broker k)"
  then have s: "publish_attempts (fst (publish_loop broker topic msg 0)) = k + 1 - 0 \<and>
                snd (publish_loop broker topic msg 0) = None"
    by (intro publish_loop_first_success) simp_all
  from s show "publish_attempts (fst (MqttClient_publish broker topic msg)) = k + 1"
    by (simp add: MqttClient_publish_def)
  from s show "snd (MqttClient_publish broker topic msg) = None"
    by (simp add: MqttClient_publish_def)
next
  assume h: "list_all (\<lambda>j. reports_failure (publish_reply broker j)) [0..<5]"
  note f = publish_loop_all_fail [OF h, of topic msg]
  from f show a: "publish_attempts (fst (MqttClient_publish broker topic msg)) = 5"
    by (simp add: MqttClient_publish_def)
  from f show "count_list (fst (MqttClient_publish broker topic msg))
        (Log (Info (''Failed to send message to topic '' @ topic))) = 5"
    by (simp add: MqttClient_publish_def)
  from f show p: "snd (MqttClient_publish broker topic msg) = None"
    by (simp add: MqttClient_publish_def)
  assume c: "connect_reply broker = Inr () \<and> loop_start_reply broker = Inr () \<and>
       loop_stop_reply broker = Inr ()"
  with p show "snd (notify mq broker topic msg) = None"
    by (simp add: notify_returns_iff)
  from c p a show "publish_attempts (fst (notify mq broker topic msg)) = 5"
    by (simp add: notify_def Let_def case_prod_beta publish_attempts_append)
next
  assume h: "notify_calls (fst (loop_body config mq st env)) = 1 \<and>
    list_all (\<lambda>env. no_trigger_observed config (addresses_seen env)) later"
  then have "notified (fst (snd (loop_body config mq st env)))"
    by (simp add: loop_body_called_notify)
  with h show "notify_calls (fst (main_loop config mq (fst (snd (loop_body config mq st env))) later)) = 0"
    by (simp add: main_loop_no_second_call)
qed


theorem C7_witness:
  "(2 < (5::nat) \<and> list_all (\<lambda>j. reports_failure (publish_reply flaky_broker j)) [0..<2] \<and>
    reports_success (publish_reply flaky_broker 2) \<and>
    publish_attempts (fst (notify example_mq flaky_broker ''home/away'' ''on'')) = 3) \<and>
   (list_all (\<lambda>j. reports_failure (publish_reply rejecting_broker j)) [0..<5] \<and>
    connect_reply rejecting_broker = Inr () \<and> loop_start_reply rejecting_broker = Inr () \<and>
    loop_stop_reply rejecting_broker = Inr () \<and>
    snd (notify example_mq rejecting_broker ''home/away'' ''on'') = None \<and>
    publish_attempts (fst (notify example_mq rejecting_broker ''home/away'' ''on'')) = 5) \<and>
   (notify_calls (fst (loop_body example_config example_mq \<lparr>absent_count = 2, notified = False\<rparr>
                         (scan_of [] rejecting_broker))) = 1 \<and>
    list_all (\<lambda>env. no_trigger_observed example_config (addresses_seen env))
      [scan_of [] rejecting_broker, scan_of [''11:22''] rejecting_broker] \<and>
    main_loop example_config example_mq \<lparr>absent_count = 2, notified = False\<rparr>
      [scan_of [] rejecting_broker, scan_of [] rejecting_broker,
       scan_of [''11:22''] rejecting_broker] =
      ([Scan, Log (Info ''Noone is here :(''),
        Log (Info ''Everyone is missing for the last 5 minutes, I should turn off stuff''),
        Connect ''broker.local'' 1883, LoopStart,
        Publish ''home/away'' ''on'', Log (Info ''Failed to send message to topic home/away''),
        Publish ''home/away'' ''on'', Log (Info ''Failed to send message to topic home/away''),
        Publish ''home/away'' ''on'', Log (Info ''Failed to send message to topic home/away''),
        Publish ''home/away'' ''on'', Log (Info ''Failed to send message to topic home/away''),
        Publish ''home/away'' ''on'', Log (Info ''Failed to send message to topic home/away''),
        LoopStop, Sleep 60,
        Scan, Log (Info ''Noone is here :(''), Sleep 60,
        Scan, Log (Info ''Noone is here :(''), Sleep 60],
       \<lparr>absent_count = 5, notified = True\<rparr>, None))"
  using C7_at_most_five_publish_attempts
          [of example_mq flaky_broker "''home/away''" "''on''" 2 example_config
              "\<lparr>absent_count = 2, notified = False\<rparr>" "scan_of [] rejecting_broker" "[]"]
        C7_at_most_five_publish_attempts
          [of example_mq rejecting_broker "''home/away''" "''on''" 0 example_config
              "\<lparr>absent_count = 2, notified = False\<rparr>" "scan_of [] rejecting_broker"
              "[scan_of [] rejecting_broker, scan_of [''11:22''] rejecting_broker]"]
  by (simp add: controller_defs notifier_defs loop_defs publish_loop.simps upt_rec)


text \<open>
  C8, as the specification has it, fails: \<^verbatim>\<open>notify\<close> does raise. On the third absent
  cycle of the scenario, with a broker whose \<^verbatim>\<open>connect\<close> raises, \<^verbatim>\<open>notify\<close> ends with
  that exception before it publishes, and the loop ends with it: of the five cycles given,
  the last two do not happen.
\<close>

theorem C8_counterexample:
  "notify example_mq refusing_broker ''home/away'' ''on'' =
     ([Connect ''broker.local'' 1883], Some (LibraryError ''ConnectionRefusedError'')) \<and>
   main_loop example_config example_mq initial
     [scan_of [] refusing_broker, scan_of [] refusing_broker, scan_of [] refusing_broker,
      scan_of [] refusing_broker, scan_of [''AA:BB''] refusing_broker] =
     ([Scan, Log (Info ''Noone is here :(''), Sleep 60,
       Scan, Log (Info ''Noone is here :(''), Sleep 60,
       Scan, Log (Info ''Noone is here :(''),
       Log (Info ''Everyone is missing for the last 5 minutes, I should turn off stuff''),
       Connect ''broker.local'' 1883],
      \<lparr>absent_count = 3, notified = True\<rparr>,
      Some (LibraryError ''ConnectionRefusedError''))"
  by (simp add: controller_defs notifier_defs loop_defs)

text \<open>
  C8, amended. The callback \<^verbatim>\<open>on_connect\<close> only logs. \<^verbatim>\<open>notify\<close> handles no exception:
  a \<^verbatim>\<open>connect\<close> that raises ends it before anything is published, and it returns exactly
  when \<^verbatim>\<open>connect\<close>, \<^verbatim>\<open>loop_start\<close>, the publishing loop and \<^verbatim>\<open>loop_stop\<close> all return;
  the loop returns whenever no call of \<^verbatim>\<open>publish\<close> raises, whatever the statuses. An
  exception out of \<^verbatim>\<open>notify\<close> ends the loop of \<^verbatim>\<open>main\<close> on that cycle: the later cycles
  do not happen.
\<close>

theorem C8_notify_raises_what_the_library_raises:
  "(\<exists>entry. on_connect rc = [Log entry]) \<and>
   (connect_reply broker = Inl e \<longrightarrow>
      notify mq broker topic msg = ([Connect (mqqtBroker mq) (mqqtPort mq)], Some e)) \<and>
   (snd (notify mq broker topic msg) = None \<longleftrightarrow>
      \<not> isl (connect_reply broker) \<and> \<not> isl (loop_start_reply broker) \<and>
      snd (MqttClient_publish broker topic msg) = None \<and> \<not> isl (loop_stop_reply broker)) \<and>
   (list_all (\<lambda>k. \<not> isl (publish_reply broker k)) [0..<5] \<longrightarrow>
      snd (MqttClient_publish broker topic msg) = None) \<and>
   (who_reply env = Inr devices \<and> mac_addresses_of devices = Inr macs \<and>
    snd (cycle config st macs) \<and>
    snd (notify mq (paho env) (mqttTopic config) ''on'') = Some e' \<longrightarrow>
      snd (snd (main_loop config mq st (env # later))) = Some e' \<and>
      fst (main_loop config mq st (env # later)) = fst (loop_body config mq st env))"
proof (intro conjI impI)
  show "\<exists>entry. on_connect rc = [Log entry]"
    by (simp add: on_connect_def)
next
  assume "connect_reply broker = Inl e"
  then show "notify mq broker topic msg = ([Connect (mqqtBroker mq) (mqqtPort mq)], Some e)"
    by (simp add: notify_def)
next
  show "snd (notify mq broker topic msg) = None \<longleftrightarrow>
      \<not> isl (connect_reply broker) \<and> \<not> isl (loop_start_reply broker) \<and>
      snd (MqttClient_publish broker topic msg) = None \<and> \<not> isl (loop_stop_reply broker)"
    by (rule notify_returns_iff)
next
  assume "list_all (\<lambda>k. \<not> isl (publish_reply broker k)) [0..<5]"
  then show "snd (MqttClient_publish broker topic msg) = None"
    by (simp only: MqttClient_publish_def publish_loop_returns)
next
  assume h: "who_reply env = Inr devices \<and> mac_addresses_of devices = Inr macs \<and>
    snd (cycle config st macs) \<and>
    snd (notify mq (paho env) (mqttTopic config) ''on'') = Some e'"
  then have "fires config (snd (observe config st macs))"
    by (simp add: cycle_fires_iff)
  with h have b: "snd (snd (loop_body config mq st env)) = Some e'"
    by (simp add: loop_body_def case_prod_beta)
  from b show "snd (snd (main_loop config mq st (env # later))) = Some e'"
    by (simp add: main_loop_raises del: main_loop.simps)
  from b show "fst (main_loop config mq st (env # later)) = fst (loop_body config mq st env)"
    by (simp add: main_loop_raises del: main_loop.simps)
qed

theorem C8_witness:
  "(connect_reply refusing_broker = Inl (LibraryError ''ConnectionRefusedError'') \<and>
    notify example_mq refusing_broker ''home/away'' ''on'' =
      ([Connect ''broker.local'' 1883], Some (LibraryError ''ConnectionRefusedError'')) \<and>
    who_reply (scan_of [] refusing_broker) = Inr [] \<and>
    mac_addresses_of [] = Inr [] \<and>
    snd (cycle example_config \<lparr>absent_count = 2, notified = False\<rparr> []) \<and>
    snd (snd (main_loop example_config example_mq \<lparr>absent_count = 2, notified = False\<rparr>
           [scan_of [] refusing_broker, scan_of [] accepting_broker])) =
      Some (LibraryError ''ConnectionRefusedError'')) \<and>
   (list_all (\<lambda>k. \<not> isl (publish_reply rejecting_broker k)) [0..<5] \<and>
    snd (notify example_mq rejecting_broker ''home/away'' ''on'') = None)"
  using C8_notify_raises_what_the_library_raises
          [of 5 refusing_broker "LibraryError ''ConnectionRefusedError''" example_mq
              "''home/away''" "''on''" "scan_of [] refusing_broker" "[]" "[]" example_config
              "\<lparr>absent_count = 2, notified = False\<rparr>"
              "LibraryError ''ConnectionRefusedError''" "[scan_of [] accepting_broker]"]
        C8_notify_raises_what_the_library_raises
          [of 5 rejecting_broker "LibraryError ''ConnectionRefusedError''" example_mq
              "''home/away''" "''on''" "scan_of [] rejecting_broker" "[]" "[]" example_config
              "\<lparr>absent_count = 2, notified = False\<rparr>"
              "LibraryError ''ConnectionRefusedError''" "[]"]
  by (simp add: controller_defs notifier_defs loop_defs publish_loop.simps upt_rec)

text \<open>
  C9, as the specification has it, fails: a scan that raises ends the process. With a
  scan that raises on the second of three cycles, the loop ends there with that
  exception, and the third cycle does not happen.
\<close>

theorem C9_counterexample:
  "main_loop example_config example_mq initial
     [scan_of [] accepting_broker, failed_scan, scan_of [] accepting_broker] =
     ([Scan, Log (Info ''Noone is here :(''), Sleep 60, Scan],
      \<lparr>absent_count = 1, notified = False\<rparr>,
      Some (LibraryError ''scan failed''))"
  by (simp add: controller_defs notifier_defs loop_defs)

text \<open>
  C9, amended. When the scan raises, \<^verbatim>\<open>main\<close> does not handle it: the loop ends with that
  exception on that cycle. The cycle logs nothing, leaves the state as it was (it is not
  counted as absent), calls \<^verbatim>\<open>notify\<close> not at all, and no later cycle happens.
\<close>

theorem C9_scan_failure_ends_the_loop:
  "who_reply env = Inl e \<Longrightarrow> main_loop config mq st (env # later) = ([Scan], st, Some e)"
  by (simp add: loop_body_scan_raises)

theorem C9_witness:
  "who_reply failed_scan = Inl (LibraryError ''scan failed'') \<and>
   main_loop example_config example_mq \<lparr>absent_count = 2, notified = False\<rparr>
     [failed_scan, scan_of [] accepting_broker, scan_of [] accepting_broker] =
     ([Scan], \<lparr>absent_count = 2, notified = False\<rparr>, Some (LibraryError ''scan failed''))"
  using C9_scan_failure_ends_the_loop
          [of failed_scan "LibraryError ''scan failed''" example_config example_mq
              "\<lparr>absent_count = 2, notified = False\<rparr>"
              "[scan_of [] accepting_broker, scan_of [] accepting_broker]"]
  by (simp add: failed_scan_def)

end
